theory Spec2Isabelle
  imports Complex_Main
begin

section \<open>Numbers, errors and arrays\<close>

text \<open>
  The embedding follows \<^verbatim>\<open>multicriterio.py\<close>. The float64 values of numpy are idealised
  as real numbers: every arithmetic operation is exact and only \<^verbatim>\<open>round\<close> loses
  information. Inputs on which numpy would produce \<^verbatim>\<open>nan\<close> or \<^verbatim>\<open>inf\<close> (a zero divisor,
  an overflow) are outside this idealisation: a division by zero is 0 here. The rounding
  precision is a natural number. A dictionary is an association list with distinct keys,
  read with \<^const>\<open>map_of\<close>, and a matrix is the list of its rows.
\<close>

datatype error = LinAlgError | KeyError | IndexError | ZeroDivisionError
  | RecursionError | TypeError | ValueError

type_synonym matrix = "real list list"

text \<open>\<^verbatim>\<open>matriz.shape[0]\<close>, \<^verbatim>\<open>matriz.shape[1]\<close> and \<^verbatim>\<open>len(matriz)\<close> of a two-dimensional array.\<close>

definition nrows :: "matrix \<Rightarrow> nat" where
  "nrows m = length m"

definition ncols :: "matrix \<Rightarrow> nat" where
  "ncols m = (case m of [] \<Rightarrow> 0 | r # _ \<Rightarrow> length r)"

text \<open>
  A list of lists is a two-dimensional array when it has a row and all rows have the
  same length (\<^verbatim>\<open>np.array\<close> of the empty list is one-dimensional).
\<close>

definition rectangular :: "matrix \<Rightarrow> bool" where
  "rectangular m \<longleftrightarrow> m \<noteq> [] \<and> list_all (\<lambda>r. length r = ncols m) m"

definition is_square :: "matrix \<Rightarrow> bool" where
  "is_square m \<longleftrightarrow> rectangular m \<and> nrows m = ncols m"

text \<open>
  \<^verbatim>\<open>ndarray.round(p)\<close>: scale by \<open>10 ^ p\<close>, round half to even, scale back.
\<close>

definition rint :: "real \<Rightarrow> int" where
  "rint x = (let f = \<lfloor>x\<rfloor> in
     if x - of_int f < 1 / 2 then f
     else if 1 / 2 < x - of_int f then f + 1
     else if even f then f else f + 1)"

definition np_round :: "nat \<Rightarrow> real \<Rightarrow> real" where
  "np_round p x = of_int (rint (x * 10 ^ p)) / 10 ^ p"

definition round_vec :: "nat \<Rightarrow> real list \<Rightarrow> real list" where
  "round_vec p v = map (np_round p) v"

section \<open>Priority vectors\<close>

text \<open>\<^verbatim>\<open>matriz.sum(axis=0)\<close>: the sums of the columns.\<close>

definition sum_axis0 :: "matrix \<Rightarrow> real list" where
  "sum_axis0 m = map (\<lambda>j. sum_list (map (\<lambda>r. r ! j) m)) [0 ..< ncols m]"

text \<open>
  \<^verbatim>\<open>aproximado\<close>: every row is divided elementwise by the column sums (numpy broadcasts
  the vector over the rows), then the mean of each row is rounded. Nothing in it tests
  the shape of the matrix.
\<close>

definition aproximado :: "matrix \<Rightarrow> nat \<Rightarrow> real list" where
  "aproximado matriz precisao =
     (let soma_colunas = sum_axis0 matriz;
          matriz_norm = map (\<lambda>linha. map2 (/) linha soma_colunas) matriz;
          media_linhas = map (\<lambda>linha. sum_list linha / real (length linha)) matriz_norm
      in round_vec precisao media_linhas)"

text \<open>
  \<^verbatim>\<open>geometrico\<close>: \<^verbatim>\<open>1 / len(linha)\<close> is a division of Python integers and raises
  \<^verbatim>\<open>ZeroDivisionError\<close> on an empty row.
\<close>

definition geometrico :: "matrix \<Rightarrow> nat \<Rightarrow> error + real list" where
  "geometrico matriz precisao =
     (if [] \<in> set matriz then Inl ZeroDivisionError
      else
        let media_geometrica = map (\<lambda>linha. prod_list linha powr (1 / real (length linha))) matriz;
            total = sum_list media_geometrica
        in Inr (round_vec precisao (map (\<lambda>g. g / total) media_geometrica)))"

text \<open>
  \<^verbatim>\<open>matrix_power(matriz, 2)\<close>: numpy raises \<^verbatim>\<open>LinAlgError\<close> unless the array is square.
\<close>

definition matmul :: "matrix \<Rightarrow> matrix \<Rightarrow> matrix" where
  "matmul a b =
     map (\<lambda>linha. map (\<lambda>j. sum_list (map2 (*) linha (map (\<lambda>r. r ! j) b))) [0 ..< ncols b]) a"

definition matrix_power2 :: "matrix \<Rightarrow> error + matrix" where
  "matrix_power2 m = (if m = [] \<or> nrows m \<noteq> ncols m then Inl LinAlgError else Inr (matmul m m))"

text \<open>
  \<^verbatim>\<open>autovalor\<close>. The budget \<^verbatim>\<open>interacao\<close> is a Python integer; \<^verbatim>\<open>autovetor_anterior\<close> is
  \<^verbatim>\<open>None\<close> on the first call. \<^verbatim>\<open>not np.any(diferenca)\<close> holds when no entry of the rounded
  difference is non-zero.
\<close>

function autovalor :: "matrix \<Rightarrow> nat \<Rightarrow> int \<Rightarrow> real list option \<Rightarrow> error + real list" where
  "autovalor matriz precisao interacao autovetor_anterior =
     (case matrix_power2 matriz of
        Inl e \<Rightarrow> Inl e
      | Inr matriz_quadrada \<Rightarrow>
          let soma_linhas = map sum_list matriz_quadrada;
              soma_coluna = sum_list soma_linhas;
              autovetor_atual = map (\<lambda>x. x / soma_coluna) soma_linhas;
              anterior = (case autovetor_anterior of
                            None \<Rightarrow> replicate (nrows matriz) 0
                          | Some v \<Rightarrow> v);
              diferenca = round_vec precisao (map2 (-) autovetor_atual anterior)
          in if \<not> list_ex (\<lambda>d. d \<noteq> 0) diferenca then Inr (round_vec precisao autovetor_atual)
             else if 0 < interacao - 1
               then autovalor matriz_quadrada precisao (interacao - 1) (Some autovetor_atual)
               else Inr (round_vec precisao autovetor_atual))"
  by pat_completeness auto
termination
  by (relation "measure (\<lambda>(m, p, i, v). nat i)") auto

declare autovalor.simps [simp del]

text \<open>
  The estimates that the power iteration goes through, written without the recursion:
  \<open>estimativa m k\<close> is the normalised vector of row sums after \<open>k + 1\<close> squarings of
  \<open>m\<close>, \<open>anterior prev m k\<close> is the vector it is compared with, and \<open>convergiu prev m p k\<close>
  says that their difference, rounded to \<open>p\<close> digits, has no non-zero entry.
\<close>

definition quadrado :: "matrix \<Rightarrow> matrix" where
  "quadrado m = matmul m m"

definition estimativa :: "matrix \<Rightarrow> nat \<Rightarrow> real list" where
  "estimativa m k =
     (let soma_linhas = map sum_list ((quadrado ^^ Suc k) m)
      in map (\<lambda>x. x / sum_list soma_linhas) soma_linhas)"

definition anterior :: "real list option \<Rightarrow> matrix \<Rightarrow> nat \<Rightarrow> real list" where
  "anterior prev m k =
     (case k of
        0 \<Rightarrow> (case prev of None \<Rightarrow> replicate (nrows m) 0 | Some v \<Rightarrow> v)
      | Suc j \<Rightarrow> estimativa m j)"

definition convergiu :: "real list option \<Rightarrow> matrix \<Rightarrow> nat \<Rightarrow> nat \<Rightarrow> bool" where
  "convergiu prev m p k \<longleftrightarrow>
     \<not> list_ex (\<lambda>d. d \<noteq> 0) (round_vec p (map2 (-) (estimativa m k) (anterior prev m k)))"

text \<open>
  The method selection inside the loop of \<^verbatim>\<open>local_priority_vector\<close>. \<^verbatim>\<open>escolha\<close> names the
  branch that the \<^verbatim>\<open>if/elif/else\<close> takes; the test of the last branch is Python's
  \<^verbatim>\<open>matriz.shape[0] and matriz.shape[1] >= 2\<close>. \<^verbatim>\<open>autovalor\<close> is called with its default
  budget of 100.
\<close>

datatype ramo = Aproximado | Geometrico | Autovalor

definition escolha :: "string \<Rightarrow> matrix \<Rightarrow> ramo" where
  "escolha metodo matriz =
     (if metodo = ''aproximado'' then Aproximado
      else if metodo = ''geometrico'' then Geometrico
      else if nrows matriz \<noteq> 0 \<and> 2 \<le> ncols matriz then Autovalor
      else Aproximado)"

definition prioridades_locais :: "string \<Rightarrow> nat \<Rightarrow> matrix \<Rightarrow> error + real list" where
  "prioridades_locais metodo precisao matriz =
     (case escolha metodo matriz of
        Aproximado \<Rightarrow> Inr (aproximado matriz precisao)
      | Geometrico \<Rightarrow> geometrico matriz precisao
      | Autovalor \<Rightarrow> autovalor matriz precisao 100 None)"

text \<open>
  The matrices the claims speak of: \<open>positiva\<close> has only positive entries, and a valid
  reciprocal pairwise comparison matrix \<open>reciproca\<close> is square and positive with
  \<open>entry (i, j) * entry (j, i) = 1\<close> and ones on the diagonal.
\<close>

definition positiva :: "matrix \<Rightarrow> bool" where
  "positiva m \<longleftrightarrow> list_all (list_all (\<lambda>x. 0 < x)) m"

definition reciproca :: "matrix \<Rightarrow> bool" where
  "reciproca m \<longleftrightarrow> is_square m \<and> positiva m
     \<and> list_all (\<lambda>i. list_all (\<lambda>j. m ! i ! j * m ! j ! i = 1) [0 ..< nrows m]) [0 ..< nrows m]
     \<and> list_all (\<lambda>i. m ! i ! i = 1) [0 ..< nrows m]"

section \<open>Consistency metrics\<close>

text \<open>
  The Random Index table of \<^verbatim>\<open>consistencia\<close>, a dictionary keyed by the order.
\<close>

definition randon_consist_index :: "(nat \<times> real) list" where
  "randon_consist_index =
     [(3, 52 / 100), (4, 89 / 100), (5, 111 / 100), (6, 125 / 100), (7, 135 / 100),
      (8, 140 / 100), (9, 145 / 100), (10, 149 / 100), (11, 152 / 100), (12, 154 / 100),
      (13, 156 / 100), (14, 158 / 100), (15, 159 / 100)]"

text \<open>
  \<^verbatim>\<open>consistencia\<close>. The dominant eigenvalue \<^verbatim>\<open>np.real(eigvals(matriz).max())\<close> comes from
  numpy and is the parameter \<open>eig\<close>; \<^verbatim>\<open>eigvals\<close> raises \<^verbatim>\<open>LinAlgError\<close> on an array that is
  not square. The test is Python's \<^verbatim>\<open>matriz.shape[0] and matriz.shape[1] > 2\<close>: the number
  of rows is only tested for being non-zero.
\<close>

definition consistencia :: "(matrix \<Rightarrow> real) \<Rightarrow> matrix \<Rightarrow> error + (real \<times> real \<times> real)" where
  "consistencia eig matriz =
     (if nrows matriz \<noteq> 0 \<and> 2 < ncols matriz then
        (if nrows matriz \<noteq> ncols matriz then Inl LinAlgError
         else
           let lambda_max = eig matriz;
               consist_index = (lambda_max - real (length matriz)) / (real (length matriz) - 1)
           in (case map_of randon_consist_index (length matriz) of
                 None \<Rightarrow> Inl KeyError
               | Some ri \<Rightarrow> Inr (lambda_max, consist_index, consist_index / ri)))
      else Inr (0, 0, 0))"

section \<open>The engine\<close>

text \<open>
  The class \<^verbatim>\<open>AHP\<close>. \<^verbatim>\<open>__init__\<close> stores its arguments and sets \<^verbatim>\<open>prioridades_globais\<close> to the
  empty list; no other place of the source assigns that field.
\<close>

record ahp =
  metodo :: string
  precisao :: nat
  alternativas :: "string list"
  criterios :: "string list"
  sub_criterios :: "(string \<times> string list) list"
  matrizes_preferencias :: "(string \<times> matrix) list"
  log :: bool
  prioridades_globais :: "real list list"

definition init :: "string \<Rightarrow> nat \<Rightarrow> string list \<Rightarrow> string list \<Rightarrow> (string \<times> string list) list
    \<Rightarrow> (string \<times> matrix) list \<Rightarrow> bool \<Rightarrow> ahp" where
  "init m p alts crits subs mats lg =
     \<lparr>metodo = m, precisao = p, alternativas = alts, criterios = crits, sub_criterios = subs,
      matrizes_preferencias = mats, log = lg, prioridades_globais = []\<rparr>"

text \<open>
  \<^verbatim>\<open>local_priority_vector\<close>: the loop over the dictionary of matrices. \<^verbatim>\<open>consistencia\<close> is
  called for every matrix, with logging or without, so its errors end the loop too. The
  printing under \<^verbatim>\<open>self.log\<close> changes no value and is left out.
\<close>

fun local_priority_loop :: "(matrix \<Rightarrow> real) \<Rightarrow> string \<Rightarrow> nat \<Rightarrow> (string \<times> matrix) list
    \<Rightarrow> (string \<rightharpoonup> real list) \<Rightarrow> error + (string \<rightharpoonup> real list)" where
  "local_priority_loop eig m p [] vetor = Inr vetor"
| "local_priority_loop eig m p ((criterio, matriz) # resto) vetor =
     (case prioridades_locais m p matriz of
        Inl e \<Rightarrow> Inl e
      | Inr pl \<Rightarrow>
          (case consistencia eig matriz of
             Inl e \<Rightarrow> Inl e
           | Inr _ \<Rightarrow> local_priority_loop eig m p resto (vetor(criterio \<mapsto> pl))))"

definition local_priority_vector :: "(matrix \<Rightarrow> real) \<Rightarrow> ahp \<Rightarrow> error + (string \<rightharpoonup> real list)" where
  "local_priority_vector eig s =
     local_priority_loop eig (metodo s) (precisao s) (matrizes_preferencias s) Map.empty"

text \<open>
  \<^verbatim>\<open>criterios.index(criterio)\<close>: the position of the first element equal to
  \<^verbatim>\<open>criterio\<close>. The loop variable ranges over the same list, so the element is present.
\<close>

fun index_of :: "'a list \<Rightarrow> 'a \<Rightarrow> nat" where
  "index_of [] x = 0"
| "index_of (y # ys) x = (if y = x then 0 else Suc (index_of ys x))"

text \<open>
  \<^verbatim>\<open>global_priority_vector\<close>. The accumulator \<^verbatim>\<open>self.prioridades_globais\<close> is passed in and
  returned. The first argument bounds the depth of the recursion, as Python's recursion
  limit does: a call with no depth left is a \<^verbatim>\<open>RecursionError\<close>. \<open>full\<close> is the list the
  \<^verbatim>\<open>for\<close> loop runs over and \<open>rest\<close> what is left of it; \<^verbatim>\<open>pesos[...]\<close> raises \<^verbatim>\<open>IndexError\<close>
  beyond the end and \<^verbatim>\<open>prioridades[criterio]\<close> raises \<^verbatim>\<open>KeyError\<close> on a missing key.
\<close>

fun gpv :: "nat \<Rightarrow> nat \<Rightarrow> (string \<times> string list) list \<Rightarrow> (string \<rightharpoonup> real list) \<Rightarrow> real list
    \<Rightarrow> string list \<Rightarrow> string list \<Rightarrow> real list list \<Rightarrow> error + real list list" where
  "gpv 0 p sub prioridades pesos full rest acc = Inl RecursionError"
| "gpv (Suc f) p sub prioridades pesos full [] acc = Inr acc"
| "gpv (Suc f) p sub prioridades pesos full (criterio # resto) acc =
     (if length pesos \<le> index_of full criterio then Inl IndexError
      else
        (case prioridades criterio of
           None \<Rightarrow> Inl KeyError
         | Some pl \<Rightarrow>
             (case map_of sub criterio of
                Some filhos \<Rightarrow>
                  (case gpv f p sub prioridades
                          (round_vec p (map (\<lambda>x. pesos ! index_of full criterio * x) pl))
                          filhos filhos acc of
                     Inl e \<Rightarrow> Inl e
                   | Inr acc' \<Rightarrow> gpv (Suc f) p sub prioridades pesos full resto acc')
              | None \<Rightarrow>
                  gpv (Suc f) p sub prioridades pesos full resto
                    (acc @ [round_vec p (map (\<lambda>x. pesos ! index_of full criterio * x) pl)]))))"

definition global_priority_vector :: "nat \<Rightarrow> ahp \<Rightarrow> (string \<rightharpoonup> real list) \<Rightarrow> real list
    \<Rightarrow> string list \<Rightarrow> error + ahp" where
  "global_priority_vector limite s prioridades pesos crits =
     (case gpv limite (precisao s) (sub_criterios s) prioridades pesos crits crits
             (prioridades_globais s) of
        Inl e \<Rightarrow> Inl e
      | Inr acc \<Rightarrow> Inr (s\<lparr>prioridades_globais := acc\<rparr>))"

text \<open>
  \<^verbatim>\<open>dict(zip(...))\<close>: a later pair with a key already present replaces its value.
\<close>

fun dict_set :: "'k \<Rightarrow> 'v \<Rightarrow> ('k \<times> 'v) list \<Rightarrow> ('k \<times> 'v) list" where
  "dict_set k v [] = [(k, v)]"
| "dict_set k v ((k', v') # d) = (if k = k' then (k, v) # d else (k', v') # dict_set k v d)"

definition dict :: "('k \<times> 'v) list \<Rightarrow> ('k \<times> 'v) list" where
  "dict ps = foldl (\<lambda>d (k, v). dict_set k v d) [] ps"

text \<open>
  \<^verbatim>\<open>resultado\<close>, returning the ranking and the engine after the call. \<^verbatim>\<open>np.array\<close> of the
  accumulated vectors raises \<^verbatim>\<open>ValueError\<close> when they differ in length; of an empty
  accumulator it is an empty one-dimensional array whose sum is a number, which \<^verbatim>\<open>zip\<close>
  rejects with \<^verbatim>\<open>TypeError\<close>. An engine whose call raised is not followed further.
\<close>

definition resultado :: "(matrix \<Rightarrow> real) \<Rightarrow> nat \<Rightarrow> ahp \<Rightarrow> error + ((string \<times> real) list \<times> ahp)" where
  "resultado eig limite s =
     (case local_priority_vector eig s of
        Inl e \<Rightarrow> Inl e
      | Inr prioridades \<Rightarrow>
          (case prioridades ''criterios'' of
             None \<Rightarrow> Inl KeyError
           | Some pesos \<Rightarrow>
               (case global_priority_vector limite s prioridades pesos (criterios s) of
                  Inl e \<Rightarrow> Inl e
                | Inr s' \<Rightarrow>
                    if prioridades_globais s' = [] then Inl TypeError
                    else if \<not> rectangular (prioridades_globais s') then Inl ValueError
                    else Inr (dict (zip (alternativas s)
                                 (round_vec (precisao s) (sum_axis0 (prioridades_globais s')))),
                              s'))))"

text \<open>
  The hierarchy that the sub-criteria dictionary describes: \<open>filho sub\<close> relates a child to
  its parent, and \<open>dentro sub cs d\<close> says that the lists of nodes below and including \<open>cs\<close>
  are nested at most \<open>d\<close> deep.
\<close>

definition filho :: "(string \<times> string list) list \<Rightarrow> (string \<times> string) set" where
  "filho sub = {(c, pai). \<exists>fs. map_of sub pai = Some fs \<and> c \<in> set fs}"

inductive dentro :: "(string \<times> string list) list \<Rightarrow> string list \<Rightarrow> nat \<Rightarrow> bool"
  for sub :: "(string \<times> string list) list" where
  nivel: "(\<And>c fs. c \<in> set cs \<Longrightarrow> map_of sub c = Some fs \<Longrightarrow> dentro sub fs d)
      \<Longrightarrow> dentro sub cs (Suc d)"

text \<open>
  A well-formed part of the hierarchy. \<open>bem_formado sub prios m cs k\<close> holds when every node
  of \<open>cs\<close>, and every node below one of them, has a local priority vector that sums to 1.
  A leaf is a node that is not a key of the sub-criteria dictionary, and its vector has
  \<open>m\<close> entries (one per alternative); a node that is a key of the dictionary has one entry
  per child, and its children are pairwise distinct. A node that is a key of the
  dictionary with an empty list of children is therefore not well formed: the vector of
  such a node cannot have no entry and sum to 1. \<open>k\<close> counts the entries of all these
  vectors: the numbers that the aggregation rounds.
\<close>

inductive bem_formado :: "(string \<times> string list) list \<Rightarrow> (string \<rightharpoonup> real list) \<Rightarrow> nat
    \<Rightarrow> string list \<Rightarrow> nat \<Rightarrow> bool"
  for sub :: "(string \<times> string list) list" and prios :: "string \<rightharpoonup> real list" and m :: nat where
  vazio: "bem_formado sub prios m [] 0"
| folha: "map_of sub c = None \<Longrightarrow> prios c = Some pl \<Longrightarrow> sum_list pl = 1 \<Longrightarrow> length pl = m
      \<Longrightarrow> bem_formado sub prios m cs k
      \<Longrightarrow> bem_formado sub prios m (c # cs) (length pl + k)"
| interno: "map_of sub c = Some fs \<Longrightarrow> prios c = Some pl \<Longrightarrow> sum_list pl = 1
      \<Longrightarrow> length pl = length fs \<Longrightarrow> distinct fs
      \<Longrightarrow> bem_formado sub prios m fs j \<Longrightarrow> bem_formado sub prios m cs k
      \<Longrightarrow> bem_formado sub prios m (c # cs) (length pl + j + k)"

text \<open>
  A small engine: one criterion \<open>c\<close>, two alternatives \<open>a\<close> and \<open>b\<close> that the criterion
  rates equally, the normalized-column mean, four digits.
\<close>

definition exemplo :: ahp where
  "exemplo = init ''aproximado'' 4 [''a'', ''b''] [''c''] []
     [(''criterios'', [[1]]), (''c'', [[1, 1], [1, 1]])] False"


definition folha_vazia :: ahp where
  "folha_vazia = init ''aproximado'' 1 [''x''] [''c'', ''d''] [(''c'', [])]
     [(''criterios'', [[1, 1], [1, 1]]), (''c'', [[1]]), (''d'', [[1]])] False"


section \<open>Rounding and sums\<close>

lemma is_square_nrows_pos: "is_square m \<Longrightarrow> 0 < nrows m"
  by (cases m) (simp_all add: is_square_def rectangular_def nrows_def)

lemma is_square_replicate:
  "0 < n \<Longrightarrow> is_square (replicate n (replicate n x))"
  by (cases n) (simp_all add: is_square_def rectangular_def nrows_def ncols_def list_all_iff)

lemma rint_error: "\<bar>of_int (rint x) - x\<bar> \<le> 1 / 2"
proof -
  have "of_int \<lfloor>x\<rfloor> \<le> x" "x < of_int \<lfloor>x\<rfloor> + 1"
    by linarith+
  then show ?thesis
    by (auto simp add: rint_def Let_def abs_le_iff)
qed

lemma np_round_error: "\<bar>np_round p x - x\<bar> \<le> 1 / (2 * 10 ^ p)"
proof -
  have pos: "(0::real) < 10 ^ p"
    by simp
  have "np_round p x - x = (of_int (rint (x * 10 ^ p)) - x * 10 ^ p) / 10 ^ p"
    by (simp add: np_round_def diff_divide_distrib)
  then have "\<bar>np_round p x - x\<bar> = \<bar>of_int (rint (x * 10 ^ p)) - x * 10 ^ p\<bar> / 10 ^ p"
    by (simp add: abs_divide)
  also have "\<dots> \<le> (1 / 2) / 10 ^ p"
    by (rule divide_right_mono [OF rint_error]) simp
  finally show ?thesis
    by simp
qed

lemma round_vec_sum_error:
  "\<bar>sum_list (round_vec p v) - sum_list v\<bar> \<le> real (length v) / (2 * 10 ^ p)"
proof (induction v)
  case Nil
  show ?case by (simp add: round_vec_def)
next
  case (Cons x v)
  have "\<bar>sum_list (round_vec p (x # v)) - sum_list (x # v)\<bar>
      \<le> \<bar>np_round p x - x\<bar> + \<bar>sum_list (round_vec p v) - sum_list v\<bar>"
    by (simp add: round_vec_def)
  also have "\<dots> \<le> 1 / (2 * 10 ^ p) + real (length v) / (2 * 10 ^ p)"
    using np_round_error [of p x] Cons.IH by linarith
  also have "\<dots> = real (length (x # v)) / (2 * 10 ^ p)"
    by (simp add: add_divide_distrib)
  finally show ?case .
qed

lemma sum_list_indices: "sum_list (map f [0 ..< n]) = (\<Sum>j<n. f j)"
  by (simp add: interv_sum_list_conv_sum_set_nat atLeast0LessThan)

lemma sum_list_nths: "sum_list (xs :: real list) = (\<Sum>j<length xs. xs ! j)"
  by (simp add: sum_list_sum_nth atLeast0LessThan)

lemma rectangular_row: "rectangular m \<Longrightarrow> r \<in> set m \<Longrightarrow> length r = ncols m"
  by (simp add: rectangular_def list_all_iff)

lemma sum_axis0_nth:
  "j < ncols m \<Longrightarrow> sum_axis0 m ! j = (\<Sum>i<length m. m ! i ! j)"
  by (simp add: sum_axis0_def sum_list_nths)

lemma length_sum_axis0: "length (sum_axis0 m) = ncols m"
  by (simp add: sum_axis0_def)


section \<open>Properties of the priority vectors\<close>

lemma matrix_power2_square: "is_square m \<Longrightarrow> matrix_power2 m = Inr (matmul m m)"
  by (auto simp add: matrix_power2_def is_square_def rectangular_def)
lemma ncols_matmul: "a \<noteq> [] \<Longrightarrow> ncols (matmul a b) = ncols b"
  by (cases a) (simp_all add: matmul_def ncols_def)

lemma nrows_matmul: "nrows (matmul a b) = nrows a"
  by (simp add: matmul_def nrows_def)

lemma matrix_power2_not_square:
  "rectangular m \<Longrightarrow> \<not> is_square m \<Longrightarrow> matrix_power2 m = Inl LinAlgError"
  by (simp add: matrix_power2_def is_square_def)

lemma is_square_matmul: "is_square m \<Longrightarrow> is_square (matmul m m)"
  unfolding is_square_def rectangular_def
  by (auto simp add: ncols_matmul nrows_matmul) (simp_all add: matmul_def list_all_iff)

lemma estimativa_quadrado: "estimativa (quadrado m) k = estimativa m (Suc k)"
  by (simp add: estimativa_def funpow_swap1)

lemma anterior_quadrado:
  "anterior (Some (estimativa m 0)) (quadrado m) k = anterior prev m (Suc k)"
  by (cases k) (simp_all add: anterior_def estimativa_quadrado)

lemma convergiu_quadrado:
  "convergiu (Some (estimativa m 0)) (quadrado m) p k = convergiu prev m p (Suc k)"
  by (simp only: convergiu_def estimativa_quadrado anterior_quadrado [of m k prev])

lemma autovalor_step:
  assumes "is_square m"
  shows "autovalor m p i prev =
    (if convergiu prev m p 0 then Inr (round_vec p (estimativa m 0))
     else if 0 < i - 1 then autovalor (quadrado m) p (i - 1) (Some (estimativa m 0))
     else Inr (round_vec p (estimativa m 0)))"
  by (subst autovalor.simps)
    (simp add: matrix_power2_square [OF assms] convergiu_def estimativa_def anterior_def
      quadrado_def Let_def)

lemma autovalor_converges:
  "is_square m \<Longrightarrow> int k < max 1 i \<Longrightarrow> convergiu prev m p k
    \<Longrightarrow> (\<forall>j<k. \<not> convergiu prev m p j)
    \<Longrightarrow> autovalor m p i prev = Inr (round_vec p (estimativa m k))"
proof (induction k arbitrary: m i prev)
  case 0
  then show ?case by (simp add: autovalor_step)
next
  case (Suc k)
  have sq: "is_square (quadrado m)"
    using Suc.prems(1) by (simp add: quadrado_def is_square_matmul)
  have n0: "\<not> convergiu prev m p 0"
    using Suc.prems(4) by blast
  have i: "0 < i - 1" "int k < max 1 (i - 1)"
    using Suc.prems(2) by auto
  have c: "convergiu (Some (estimativa m 0)) (quadrado m) p k"
    using Suc.prems(3) by (simp add: convergiu_quadrado [of m p k prev])
  have nc: "\<forall>j<k. \<not> convergiu (Some (estimativa m 0)) (quadrado m) p j"
    using Suc.prems(4) by (simp add: convergiu_quadrado [of m p _ prev])
  have "autovalor m p i prev = autovalor (quadrado m) p (i - 1) (Some (estimativa m 0))"
    using n0 i(1) by (simp add: autovalor_step [OF Suc.prems(1)])
  also have "\<dots> = Inr (round_vec p (estimativa (quadrado m) k))"
    using sq i(2) c nc by (rule Suc.IH)
  finally show ?case
    by (simp add: estimativa_quadrado)
qed

lemma autovalor_exhausts:
  "is_square m \<Longrightarrow> nat (max 1 i) = Suc n \<Longrightarrow> (\<forall>j\<le>n. \<not> convergiu prev m p j)
    \<Longrightarrow> autovalor m p i prev = Inr (round_vec p (estimativa m n))"
proof (induction n arbitrary: m i prev)
  case 0
  then have "\<not> convergiu prev m p 0" "\<not> 0 < i - 1"
    by auto
  then show ?case
    by (simp add: autovalor_step [OF "0.prems"(1)])
next
  case (Suc n)
  have sq: "is_square (quadrado m)"
    using Suc.prems(1) by (simp add: quadrado_def is_square_matmul)
  have n0: "\<not> convergiu prev m p 0"
    using Suc.prems(3) by blast
  have i: "0 < i - 1" "nat (max 1 (i - 1)) = Suc n"
    using Suc.prems(2) by auto
  have nc: "\<forall>j\<le>n. \<not> convergiu (Some (estimativa m 0)) (quadrado m) p j"
    using Suc.prems(3) by (simp add: convergiu_quadrado [of m p _ prev])
  have "autovalor m p i prev = autovalor (quadrado m) p (i - 1) (Some (estimativa m 0))"
    using n0 i(1) by (simp add: autovalor_step [OF Suc.prems(1)])
  also have "\<dots> = Inr (round_vec p (estimativa (quadrado m) n))"
    using sq i(2) nc by (rule Suc.IH)
  finally show ?case
    by (simp add: estimativa_quadrado)
qed

lemma autovalor_square_returns:
  "is_square m \<Longrightarrow> \<exists>v. autovalor m p i prev = Inr v"
proof (induction m p i prev rule: autovalor.induct)
  case (1 matriz precisao interacao autovetor_anterior)
  have mp: "matrix_power2 matriz = Inr (matmul matriz matriz)"
    using 1(2) by (rule matrix_power2_square)
  have sq: "is_square (matmul matriz matriz)"
    using 1(2) by (rule is_square_matmul)
  show ?case
    using 1(1) [OF mp refl refl refl refl refl _ _ sq] mp
    by (subst autovalor.simps) (auto simp add: Let_def)
qed

lemma autovalor_not_square:
  "rectangular m \<Longrightarrow> \<not> is_square m \<Longrightarrow> autovalor m p i prev = Inl LinAlgError"
  by (subst autovalor.simps) (simp add: matrix_power2_not_square)

lemma length_aproximado: "length (aproximado m p) = nrows m"
  by (simp add: aproximado_def round_vec_def nrows_def Let_def)

lemma geometrico_returns:
  "rectangular m \<Longrightarrow> 0 < ncols m \<Longrightarrow> \<exists>v. geometrico m p = Inr v \<and> length v = nrows m"
  by (auto simp add: geometrico_def rectangular_def list_all_iff round_vec_def nrows_def Let_def)

lemma geometrico_no_dimension_error: "geometrico m p \<noteq> Inl LinAlgError"
  by (simp add: geometrico_def Let_def)

lemma sum_list_normalised:
  "sum_list gs \<noteq> 0 \<Longrightarrow> sum_list (map (\<lambda>g. g / sum_list gs) gs) = (1::real)"
proof -
  assume nz: "sum_list gs \<noteq> 0"
  have "sum_list (map (\<lambda>g. g / t) gs) = sum_list gs / t" for t :: real
    by (induction gs) (simp_all add: add_divide_distrib)
  with nz show ?thesis by simp
qed

lemma sum_list_pos: "xs \<noteq> [] \<Longrightarrow> list_all (\<lambda>x. 0 < x) xs \<Longrightarrow> 0 < sum_list (xs :: real list)"
proof (induction xs)
  case Nil
  then show ?case by simp
next
  case (Cons x xs)
  then show ?case
    by (cases xs) (auto intro: add_pos_pos)
qed

lemma prod_list_pos: "list_all (\<lambda>x. 0 < x) xs \<Longrightarrow> 0 < prod_list (xs :: real list)"
  by (induction xs) simp_all

lemma positiva_nth:
  "positiva m \<Longrightarrow> i < length m \<Longrightarrow> j < length (m ! i) \<Longrightarrow> 0 < m ! i ! j"
  by (simp add: positiva_def list_all_length)

lemma sum_axis0_pos:
  assumes "rectangular m" "positiva m" "j < ncols m"
  shows "0 < sum_axis0 m ! j"
proof -
  have "sum_axis0 m ! j = sum_list (map (\<lambda>r. r ! j) m)"
    using assms(3) by (simp add: sum_axis0_def)
  moreover have "list_all (\<lambda>x. 0 < x) (map (\<lambda>r. r ! j) m)"
    using assms by (auto simp add: positiva_def rectangular_def list_all_iff)
  moreover have "map (\<lambda>r. r ! j) m \<noteq> []"
    using assms(1) by (simp add: rectangular_def)
  ultimately show ?thesis
    by (simp add: sum_list_pos)
qed

lemma aproximado_exact_sum:
  assumes "rectangular m" "positiva m" "0 < ncols m"
  shows "sum_list (map (\<lambda>linha. sum_list linha / real (length linha))
            (map (\<lambda>linha. map2 (/) linha (sum_axis0 m)) m)) = 1"
proof -
  let ?s = "sum_axis0 m"
  let ?c = "ncols m"
  have row: "\<And>i. i < length m \<Longrightarrow> length (m ! i) = ?c"
    using assms(1) by (simp add: rectangular_row)
  have each: "sum_list (map2 (/) (m ! i) ?s) / real (length (map2 (/) (m ! i) ?s))
      = (\<Sum>j<?c. m ! i ! j / ?s ! j) / real ?c" if "i < length m" for i
    using row [OF that] by (simp add: sum_list_nths length_sum_axis0)
  have "sum_list (map (\<lambda>linha. sum_list linha / real (length linha))
            (map (\<lambda>linha. map2 (/) linha ?s) m))
      = (\<Sum>i<length m. sum_list (map2 (/) (m ! i) ?s) / real (length (map2 (/) (m ! i) ?s)))"
    by (simp add: sum_list_nths)
  also have "\<dots> = (\<Sum>i<length m. (\<Sum>j<?c. m ! i ! j / ?s ! j) / real ?c)"
    by (rule sum.cong [OF refl]) (simp only: lessThan_iff each)
  also have "\<dots> = (\<Sum>i<length m. \<Sum>j<?c. m ! i ! j / ?s ! j) / real ?c"
    by (simp add: sum_divide_distrib)
  also have "(\<Sum>i<length m. \<Sum>j<?c. m ! i ! j / ?s ! j) = (\<Sum>j<?c. \<Sum>i<length m. m ! i ! j / ?s ! j)"
    by (rule sum.swap)
  also have "\<dots> = (\<Sum>j<?c. 1)"
  proof (intro sum.cong refl)
    fix j
    assume "j \<in> {..<?c}"
    then have j: "j < ?c" by simp
    have "(\<Sum>i<length m. m ! i ! j / ?s ! j) = (\<Sum>i<length m. m ! i ! j) / ?s ! j"
      by (simp add: sum_divide_distrib)
    also have "\<dots> = ?s ! j / ?s ! j"
      using j by (simp add: sum_axis0_nth)
    also have "\<dots> = 1"
      using sum_axis0_pos [OF assms(1,2) j] by simp
    finally show "(\<Sum>i<length m. m ! i ! j / ?s ! j) = 1" .
  qed
  also have "(\<Sum>j<?c. (1::real)) / real ?c = 1"
    using assms(3) by simp
  finally show ?thesis .
qed


lemma is_square_row: "is_square m \<Longrightarrow> r \<in> set m \<Longrightarrow> length r = length m \<and> 0 < length r"
  by (cases m) (auto simp add: is_square_def rectangular_def list_all_iff nrows_def)

lemma positiva_matmul:
  assumes "is_square m" "positiva m"
  shows "positiva (matmul m m)"
  unfolding positiva_def matmul_def list_all_iff
proof (intro ballI)
  fix linha' x
  assume l: "linha' \<in> set (map (\<lambda>linha. map (\<lambda>j. sum_list (map2 (*) linha (map (\<lambda>r. r ! j) m)))
      [0 ..< ncols m]) m)" and x: "x \<in> set linha'"
  from l obtain linha where linha: "linha \<in> set m"
    and l': "linha' = map (\<lambda>j. sum_list (map2 (*) linha (map (\<lambda>r. r ! j) m))) [0 ..< ncols m]"
    by auto
  from x l' obtain j where j: "j < ncols m"
    and xj: "x = sum_list (map2 (*) linha (map (\<lambda>r. r ! j) m))"
    by auto
  have len: "length linha = length m" "0 < length linha"
    using is_square_row [OF assms(1) linha] by auto
  have nc: "ncols m = length m"
    using assms(1) by (simp add: is_square_def nrows_def)
  have lp: "\<forall>a\<in>set linha. 0 < a"
    using assms(2) linha by (simp add: positiva_def list_all_iff)
  have cp: "\<forall>b\<in>set (map (\<lambda>r. r ! j) m). 0 < b"
  proof
    fix b
    assume "b \<in> set (map (\<lambda>r. r ! j) m)"
    then obtain r where r: "r \<in> set m" "b = r ! j"
      by auto
    from is_square_row [OF assms(1) r(1)] j nc have "j < length r"
      by simp
    then have "r ! j \<in> set r"
      by simp
    with assms(2) r show "0 < b"
      by (simp add: positiva_def list_all_iff)
  qed
  have "list_all (\<lambda>x. 0 < x) (map2 (*) linha (map (\<lambda>r. r ! j) m))"
    unfolding list_all_iff
  proof
    fix y
    assume "y \<in> set (map2 (*) linha (map (\<lambda>r. r ! j) m))"
    then obtain a b where "(a, b) \<in> set (zip linha (map (\<lambda>r. r ! j) m))" "y = a * b"
      by auto
    then have ab: "a \<in> set linha" "b \<in> set (map (\<lambda>r. r ! j) m)" "y = a * b"
      by (auto dest: set_zip_leftD set_zip_rightD)
    from lp ab(1) have "0 < a" by blast
    moreover from cp ab(2) have "0 < b" by blast
    ultimately show "0 < y"
      unfolding ab(3) by (rule mult_pos_pos)
  qed
  moreover have "map2 (*) linha (map (\<lambda>r. r ! j) m) \<noteq> []"
    using len by (cases linha; cases m) simp_all
  ultimately show "0 < x"
    unfolding xj by (simp add: sum_list_pos)
qed

lemma row_sums_total_pos:
  assumes "is_square m" "positiva m"
  shows "0 < sum_list (map sum_list m)"
proof -
  have "list_all (\<lambda>x. 0 < x) (map sum_list m)"
    unfolding list_all_iff
  proof
    fix x
    assume "x \<in> set (map sum_list m)"
    then obtain r where r: "r \<in> set m" "x = sum_list r"
      by auto
    from is_square_row [OF assms(1) r(1)] have "r \<noteq> []"
      by auto
    moreover from assms(2) r(1) have "list_all (\<lambda>x. 0 < x) r"
      by (simp add: positiva_def list_all_iff)
    ultimately show "0 < x"
      unfolding r(2) by (simp add: sum_list_pos)
  qed
  moreover have "map sum_list m \<noteq> []"
    using assms(1) by (simp add: is_square_def rectangular_def)
  ultimately show ?thesis
    by (simp add: sum_list_pos)
qed

lemma autovalor_normalised:
  "is_square m \<Longrightarrow> positiva m
    \<Longrightarrow> \<exists>u. autovalor m p i prev = Inr (round_vec p u) \<and> sum_list u = 1 \<and> length u = nrows m"
proof (induction m p i prev rule: autovalor.induct)
  case (1 matriz precisao interacao autovetor_anterior)
  let ?q = "matmul matriz matriz"
  let ?u = "map (\<lambda>x. x / sum_list (map sum_list ?q)) (map sum_list ?q)"
  have mp: "matrix_power2 matriz = Inr ?q"
    using "1.prems"(1) by (rule matrix_power2_square)
  have sq: "is_square ?q"
    using "1.prems"(1) by (rule is_square_matmul)
  have pq: "positiva ?q"
    using "1.prems" by (rule positiva_matmul)
  have "sum_list (map sum_list ?q) \<noteq> 0"
    using row_sums_total_pos [OF sq pq] by simp
  then have one: "sum_list ?u = 1"
    by (rule sum_list_normalised)
  have len: "length ?u = nrows matriz"
    by (simp add: nrows_def matmul_def)
  have nr: "nrows ?q = nrows matriz"
    by (rule nrows_matmul)
  note ih = "1.IH" [OF mp refl refl refl refl refl _ _ sq pq]
  show ?case
  proof (cases "\<not> list_ex (\<lambda>d. d \<noteq> 0) (round_vec precisao (map2 (-) ?u
      (case autovetor_anterior of None \<Rightarrow> replicate (nrows matriz) 0 | Some v \<Rightarrow> v)))")
    case True
    then have "autovalor matriz precisao interacao autovetor_anterior = Inr (round_vec precisao ?u)"
      by (subst autovalor.simps) (simp add: mp Let_def)
    with one len show ?thesis by blast
  next
    case nconv: False
    show ?thesis
    proof (cases "0 < interacao - 1")
      case True
      from ih [OF nconv True] obtain u where
        u: "autovalor ?q precisao (interacao - 1) (Some ?u) = Inr (round_vec precisao u)"
          "sum_list u = 1" "length u = nrows ?q"
        by blast
      from nconv True have "autovalor matriz precisao interacao autovetor_anterior
          = autovalor ?q precisao (interacao - 1) (Some ?u)"
        by (subst autovalor.simps) (simp add: mp Let_def)
      with u nr show ?thesis by auto
    next
      case False
      with nconv have "autovalor matriz precisao interacao autovetor_anterior
          = Inr (round_vec precisao ?u)"
        by (subst autovalor.simps) (simp add: mp Let_def)
      with one len show ?thesis by blast
    qed
  qed
qed

lemma geometrico_normalised:
  assumes "is_square m" "positiva m"
  shows "\<exists>u. geometrico m p = Inr (round_vec p u) \<and> sum_list u = 1 \<and> length u = nrows m"
proof -
  let ?g = "map (\<lambda>linha. prod_list linha powr (1 / real (length linha))) m"
  have ne: "[] \<notin> set m"
    using is_square_row [OF assms(1)] by auto
  have "list_all (\<lambda>x. 0 < x) ?g"
    using assms(2) by (auto simp add: positiva_def list_all_iff dest!: prod_list_pos [unfolded list_all_iff])
  moreover have "?g \<noteq> []"
    using assms(1) by (simp add: is_square_def rectangular_def)
  ultimately have "0 < sum_list ?g"
    by (simp add: sum_list_pos)
  then have "sum_list (map (\<lambda>g. g / sum_list ?g) ?g) = 1"
    by (intro sum_list_normalised) simp
  moreover have "geometrico m p = Inr (round_vec p (map (\<lambda>g. g / sum_list ?g) ?g))"
    using ne by (simp add: geometrico_def Let_def)
  moreover have "length (map (\<lambda>g. g / sum_list ?g) ?g) = nrows m"
    by (simp add: nrows_def)
  ultimately show ?thesis
    by blast
qed

lemma rectangular_1x2: "rectangular [[1, 4]]" "\<not> is_square [[1, 4]]"
  by (simp_all add: is_square_def rectangular_def nrows_def ncols_def)

lemma aproximado_1x2: "aproximado [[1, 4]] 0 = [1]"
  by (simp add: aproximado_def sum_axis0_def ncols_def round_vec_def np_round_def rint_def
      Let_def upt_rec)

lemma geometrico_1x2: "geometrico [[1, 4]] 0 = Inr [1]"
  by (simp add: geometrico_def round_vec_def np_round_def rint_def Let_def)

text \<open>
  C2, as stated, fails: on the 1 x 2 matrix \<open>[[1, 4]]\<close>, which is not square, the
  normalized-column mean returns \<open>[1]\<close> and the geometric mean returns \<open>[1]\<close>; neither
  raises a dimension error.
\<close>

theorem non_square_without_dimension_error:
  "rectangular [[1, 4]] \<and> \<not> is_square [[1, 4]]
   \<and> aproximado [[1, 4]] 0 = [1] \<and> geometrico [[1, 4]] 0 = Inr [1]"
  using rectangular_1x2 aproximado_1x2 geometrico_1x2 by simp

text \<open>
  C2, amended. Of the three methods only the power iteration fails with a dimension
  error, and it does so exactly when its matrix is not square (the error of
  \<^verbatim>\<open>matrix_power\<close>). The normalized-column mean and the geometric mean never raise a
  dimension error: on every two-dimensional array the first returns one entry per row,
  and so does the second when the array has a column.
\<close>

theorem dimension_error_only_from_autovalor:
  assumes "rectangular m"
  shows "(autovalor m p i prev = Inl LinAlgError \<longleftrightarrow> \<not> is_square m)
    \<and> length (aproximado m p) = nrows m
    \<and> geometrico m p \<noteq> Inl LinAlgError
    \<and> (0 < ncols m \<longrightarrow> (\<exists>v. geometrico m p = Inr v \<and> length v = nrows m))"
proof (intro conjI impI)
  show "autovalor m p i prev = Inl LinAlgError \<longleftrightarrow> \<not> is_square m"
  proof
    assume e: "autovalor m p i prev = Inl LinAlgError"
    show "\<not> is_square m"
    proof
      assume "is_square m"
      then obtain v where "autovalor m p i prev = Inr v"
        using autovalor_square_returns by blast
      with e show False by simp
    qed
  next
    assume "\<not> is_square m"
    with assms show "autovalor m p i prev = Inl LinAlgError"
      by (rule autovalor_not_square)
  qed
next
  show "length (aproximado m p) = nrows m"
    by (rule length_aproximado)
next
  show "geometrico m p \<noteq> Inl LinAlgError"
    by (rule geometrico_no_dimension_error)
next
  assume "0 < ncols m"
  with assms show "\<exists>v. geometrico m p = Inr v \<and> length v = nrows m"
    by (rule geometrico_returns)
qed

theorem dimension_error_only_from_autovalor_witness:
  "rectangular [[1, 4]] \<and> autovalor [[1, 4]] 0 100 None = Inl LinAlgError
   \<and> length (aproximado [[1, 4]] 0) = nrows [[1, 4]]
   \<and> (\<exists>v. geometrico [[1, 4]] 0 = Inr v \<and> length v = nrows [[1, 4]])"
proof -
  have c: "0 < ncols [[1, 4]]"
    by (simp add: ncols_def)
  from dimension_error_only_from_autovalor [OF rectangular_1x2(1), of 0 100 None]
    rectangular_1x2 c
  show ?thesis by blast
qed

text \<open>
  C3. The code does not do what the claim says on a matrix with one row and two
  columns: the test \<^verbatim>\<open>matriz.shape[0] and matriz.shape[1] >= 2\<close> only asks for a non-zero
  number of rows, so an unrecognised selector takes the power iteration (which then
  raises), where the claim sends a matrix with fewer than 2 rows to the
  normalized-column mean.
\<close>

theorem escolha_one_row_two_columns:
  "nrows [[1, 4]] < 2 \<and> escolha ''autovalor'' [[1, 4]] = Autovalor
   \<and> prioridades_locais ''autovalor'' 4 [[1, 4]] = Inl LinAlgError
   \<and> aproximado [[1, 4]] 0 = [1]"
proof -
  have e: "escolha ''autovalor'' [[1, 4]] = Autovalor"
    by (simp add: escolha_def nrows_def ncols_def)
  have "autovalor [[1, 4]] 4 100 None = Inl LinAlgError"
    using rectangular_1x2 by (rule autovalor_not_square)
  with e aproximado_1x2 show ?thesis
    by (simp add: prioridades_locais_def nrows_def)
qed

lemma escolha_rows_and_columns:
  assumes "sel \<noteq> ''aproximado''" and "sel \<noteq> ''geometrico''"
  shows "2 \<le> nrows m \<Longrightarrow> 2 \<le> ncols m \<Longrightarrow> escolha sel m = Autovalor"
    and "is_square m \<Longrightarrow> nrows m < 2 \<Longrightarrow> escolha sel m = Aproximado"
  using assms by (auto simp add: escolha_def is_square_def)

section \<open>The sum of a priority vector in exact arithmetic\<close>

lemma reciproca_ones: "0 < n \<Longrightarrow> reciproca (replicate n (replicate n 1))"
  unfolding reciproca_def
  by (simp add: is_square_replicate positiva_def list_all_iff nrows_def)

lemma aproximado_ones7: "aproximado (replicate 7 (replicate 7 1)) 1 = replicate 7 (1 / 10)"
  by (simp add: aproximado_def sum_axis0_def ncols_def round_vec_def np_round_def rint_def
      Let_def upt_rec numeral_eq_Suc)

lemma geometrico_ones7: "geometrico (replicate 7 (replicate 7 1)) 1 = Inr (replicate 7 (1 / 10))"
  by (simp add: geometrico_def round_vec_def np_round_def rint_def Let_def numeral_eq_Suc)

text \<open>
  In the exact arithmetic of this embedding the rounded entries need not sum to 1 within
  a unit of the last digit kept: on the 7 x 7 matrix of ones at precision 1 the
  normalized-column mean and the geometric mean both return seven entries \<open>0.1\<close>, whose
  sum is \<open>0.7\<close>.
\<close>

lemma exact_sum_of_ones7:
  "reciproca (replicate 7 (replicate 7 1))
   \<and> sum_list (aproximado (replicate 7 (replicate 7 1)) 1) = 7 / 10
   \<and> geometrico (replicate 7 (replicate 7 1)) 1 = Inr (replicate 7 (1 / 10))
   \<and> sum_list (replicate 7 (1 / 10 :: real)) = 7 / 10
   \<and> \<not> \<bar>sum_list (aproximado (replicate 7 (replicate 7 1)) 1) - 1\<bar> \<le> 1 / 10 ^ 1"
proof -
  have r: "reciproca (replicate 7 (replicate 7 1))"
    by (rule reciproca_ones) simp
  have s: "sum_list (replicate 7 (1 / 10 :: real)) = 7 / 10"
    by (simp add: sum_list_replicate)
  from r s geometrico_ones7 show ?thesis
    unfolding aproximado_ones7 by simp
qed

text \<open>
  Still in exact arithmetic, the vector of each of the three methods sums to 1 before
  rounding, and rounding moves each of its \<open>n\<close> entries by at most half a unit of the last
  digit. This says nothing about the float64 program where it departs from exact
  arithmetic: its representation error, the overflow of the repeated squaring and the
  \<^verbatim>\<open>nan\<close> that follows are not part of the embedding.
\<close>

lemma exact_sum_of_priority_vector:
  assumes "reciproca m"
  shows "\<bar>sum_list (aproximado m p) - 1\<bar> \<le> real (nrows m) / (2 * 10 ^ p)
    \<and> (\<exists>v. geometrico m p = Inr v \<and> \<bar>sum_list v - 1\<bar> \<le> real (nrows m) / (2 * 10 ^ p))
    \<and> (\<exists>v. autovalor m p i None = Inr v \<and> \<bar>sum_list v - 1\<bar> \<le> real (nrows m) / (2 * 10 ^ p))"
proof -
  from assms have sq: "is_square m" and pos: "positiva m"
    by (simp_all add: reciproca_def)
  from sq have rect: "rectangular m" and cols: "0 < ncols m"
    using is_square_nrows_pos [OF sq] by (simp_all add: is_square_def)
  let ?a = "map (\<lambda>linha. sum_list linha / real (length linha))
      (map (\<lambda>linha. map2 (/) linha (sum_axis0 m)) m)"
  have "aproximado m p = round_vec p ?a"
    by (simp add: aproximado_def Let_def)
  moreover have "sum_list ?a = 1"
    using rect pos cols by (rule aproximado_exact_sum)
  moreover have "length ?a = nrows m"
    by (simp add: nrows_def)
  ultimately have a: "\<bar>sum_list (aproximado m p) - 1\<bar> \<le> real (nrows m) / (2 * 10 ^ p)"
    using round_vec_sum_error [of p ?a] by simp
  from geometrico_normalised [OF sq pos, of p] obtain u where
    u: "geometrico m p = Inr (round_vec p u)" "sum_list u = 1" "length u = nrows m"
    by blast
  with round_vec_sum_error [of p u]
  have g: "\<exists>v. geometrico m p = Inr v \<and> \<bar>sum_list v - 1\<bar> \<le> real (nrows m) / (2 * 10 ^ p)"
    by auto
  from autovalor_normalised [OF sq pos, of p i None] obtain w where
    w: "autovalor m p i None = Inr (round_vec p w)" "sum_list w = 1" "length w = nrows m"
    by blast
  with round_vec_sum_error [of p w]
  have e: "\<exists>v. autovalor m p i None = Inr v \<and> \<bar>sum_list v - 1\<bar> \<le> real (nrows m) / (2 * 10 ^ p)"
    by auto
  from a g e show ?thesis
    by (intro conjI)
qed

section \<open>The power iteration\<close>

lemma convergiu_ones_1: "\<not> convergiu None [[1, 1], [1, 1]] 1 0"
  by (simp add: convergiu_def estimativa_def anterior_def quadrado_def matmul_def nrows_def
      ncols_def round_vec_def np_round_def rint_def Let_def upt_rec)

lemma convergiu_ones_2: "convergiu None [[1, 1], [1, 1]] 1 1"
  by (simp add: convergiu_def estimativa_def anterior_def quadrado_def matmul_def nrows_def
      ncols_def round_vec_def np_round_def rint_def Let_def upt_rec)

lemma estimativa_ones:
  "round_vec 1 (estimativa [[1, 1], [1, 1]] 0) = [1 / 2, 1 / 2]"
  "round_vec 1 (estimativa [[1, 1], [1, 1]] 1) = [1 / 2, 1 / 2]"
  by (simp_all add: estimativa_def quadrado_def matmul_def nrows_def
      ncols_def round_vec_def np_round_def rint_def Let_def upt_rec)

lemma is_square_ones: "is_square [[1, 1], [1, 1]]"
  by (simp add: is_square_def rectangular_def nrows_def ncols_def)

text \<open>
  C7. On a square matrix the power iteration compares the estimate of step \<open>k\<close> with
  the one of step \<open>k - 1\<close>, and with the zero vector at step 0 (\<open>anterior None m 0\<close>). With
  a budget \<open>i\<close> it computes at most \<open>max 1 i\<close> estimates: it returns the rounded estimate of
  the first step whose rounded difference is all-zero, and the rounded last estimate when
  no step within the budget converges. \<^verbatim>\<open>local_priority_vector\<close> calls it with the default
  budget 100.
\<close>

theorem autovalor_first_convergence_or_last:
  assumes "is_square m"
  shows "(\<forall>k. int k < max 1 i \<and> convergiu None m p k \<and> (\<forall>j<k. \<not> convergiu None m p j)
            \<longrightarrow> autovalor m p i None = Inr (round_vec p (estimativa m k)))
    \<and> ((\<forall>j. int j < max 1 i \<longrightarrow> \<not> convergiu None m p j)
            \<longrightarrow> autovalor m p i None = Inr (round_vec p (estimativa m (nat (max 1 i) - 1))))
    \<and> anterior None m 0 = replicate (nrows m) 0
    \<and> (escolha sel m = Autovalor
            \<longrightarrow> prioridades_locais sel p m = autovalor m p 100 None)"
proof (intro conjI allI impI)
  fix k
  assume "int k < max 1 i \<and> convergiu None m p k \<and> (\<forall>j<k. \<not> convergiu None m p j)"
  with assms show "autovalor m p i None = Inr (round_vec p (estimativa m k))"
    by (simp add: autovalor_converges)
next
  assume a: "\<forall>j. int j < max 1 i \<longrightarrow> \<not> convergiu None m p j"
  obtain n where n: "nat (max 1 i) = Suc n"
    by (cases "nat (max 1 i)") auto
  have "\<forall>j\<le>n. \<not> convergiu None m p j"
  proof (intro allI impI)
    fix j
    assume "j \<le> n"
    with n have "int j < max 1 i" by linarith
    with a show "\<not> convergiu None m p j" by blast
  qed
  with assms n have "autovalor m p i None = Inr (round_vec p (estimativa m n))"
    by (rule autovalor_exhausts)
  with n show "autovalor m p i None = Inr (round_vec p (estimativa m (nat (max 1 i) - 1)))"
    by simp
next
  show "anterior None m 0 = replicate (nrows m) 0"
    by (simp add: anterior_def)
next
  assume "escolha sel m = Autovalor"
  then show "prioridades_locais sel p m = autovalor m p 100 None"
    by (simp add: prioridades_locais_def)
qed

theorem autovalor_first_convergence_or_last_witness:
  "is_square [[1, 1], [1, 1]]
   \<and> autovalor [[1, 1], [1, 1]] 1 100 None = Inr [1 / 2, 1 / 2]
   \<and> autovalor [[1, 1], [1, 1]] 1 1 None = Inr [1 / 2, 1 / 2]
   \<and> prioridades_locais ''autovalor'' 1 [[1, 1], [1, 1]] = Inr [1 / 2, 1 / 2]"
proof -
  note t = autovalor_first_convergence_or_last [OF is_square_ones, of _ 1 "''autovalor''"]
  have c: "int 1 < max 1 100 \<and> convergiu None [[1, 1], [1, 1]] 1 1
      \<and> (\<forall>j<1. \<not> convergiu None [[1, 1], [1, 1]] 1 j)"
    using convergiu_ones_1 convergiu_ones_2 by simp
  have a: "autovalor [[1, 1], [1, 1]] 1 100 None = Inr [1 / 2, 1 / 2]"
    using t [of 100] c estimativa_ones(2) by metis
  have d: "\<forall>j. int j < max 1 1 \<longrightarrow> \<not> convergiu None [[1, 1], [1, 1]] 1 j"
    using convergiu_ones_1 by simp
  have "autovalor [[1, 1], [1, 1]] 1 1 None
      = Inr (round_vec 1 (estimativa [[1, 1], [1, 1]] (nat (max 1 1) - 1)))"
    using t [of 1] d by blast
  then have b: "autovalor [[1, 1], [1, 1]] 1 1 None = Inr [1 / 2, 1 / 2]"
    using estimativa_ones(1) by simp
  have e: "escolha ''autovalor'' [[1, 1], [1, 1]] = Autovalor"
    by (simp add: escolha_def nrows_def ncols_def)
  have "prioridades_locais ''autovalor'' 1 [[1, 1], [1, 1]] = autovalor [[1, 1], [1, 1]] 1 100 None"
    using t [of 100] e by blast
  with a b is_square_ones show ?thesis by simp
qed

section \<open>The aggregation over the hierarchy\<close>

lemma dentro_mono: "dentro sub cs d \<Longrightarrow> d \<le> d' \<Longrightarrow> dentro sub cs d'"
proof (induction arbitrary: d' rule: dentro.induct)
  case (nivel cs d)
  from nivel.prems obtain e where e: "d' = Suc e" "d \<le> e"
    by (cases d') auto
  show ?case
    unfolding e(1) by (rule dentro.nivel) (rule nivel.IH [OF _ _ e(2)])
qed

lemma dentro_Suc_iff:
  "dentro sub cs (Suc d) \<longleftrightarrow> (\<forall>c fs. c \<in> set cs \<and> map_of sub c = Some fs \<longrightarrow> dentro sub fs d)"
  by (auto elim: dentro.cases intro: dentro.nivel)

lemma dentro_pos: "dentro sub cs d \<Longrightarrow> 0 < d"
  by (erule dentro.cases) simp

lemma dentro_tail: "dentro sub (c # cs) d \<Longrightarrow> dentro sub cs d"
  using dentro_pos [of sub "c # cs" d] by (cases d) (auto simp add: dentro_Suc_iff)

lemma dentro_child:
  "dentro sub (c # cs) (Suc d) \<Longrightarrow> map_of sub c = Some fs \<Longrightarrow> dentro sub fs d"
  by (auto simp add: dentro_Suc_iff)

lemma dentro_cons:
  "(\<And>fs. map_of sub c = Some fs \<Longrightarrow> dentro sub fs d) \<Longrightarrow> dentro sub cs (Suc d)
    \<Longrightarrow> dentro sub (c # cs) (Suc d)"
  by (auto simp add: dentro_Suc_iff)

lemma gpv_enough_depth:
  "dentro sub rest d \<Longrightarrow> d \<le> f \<Longrightarrow> gpv f p sub prios pesos full rest acc \<noteq> Inl RecursionError"
proof (induction f p sub prios pesos full rest acc arbitrary: d rule: gpv.induct)
  case (1 p sub prioridades pesos full rest acc)
  then show ?case using dentro_pos by fastforce
next
  case (2 f p sub prioridades pesos full acc)
  then show ?case by simp
next
  case (3 f p sub prioridades pesos full criterio resto acc)
  from "3.prems" obtain e where e: "d = Suc e" "e \<le> f"
    using dentro_pos [OF "3.prems"(1)] by (cases d) auto
  have tl: "dentro sub resto d"
    using "3.prems"(1) by (rule dentro_tail)
  show ?case
  proof (cases "length pesos \<le> index_of full criterio")
    case True
    then show ?thesis by simp
  next
    case out: False
    show ?thesis
    proof (cases "prioridades criterio")
      case None
      with out show ?thesis by simp
    next
      case (Some pl)
      show ?thesis
      proof (cases "map_of sub criterio")
        case None
        with out Some "3.IH"(1) [OF out Some None tl "3.prems"(2)] show ?thesis
          by simp
      next
        case fs: (Some filhos)
        have ch: "dentro sub filhos e"
          using "3.prems"(1) fs unfolding e(1) by (rule dentro_child)
        note r1 = "3.IH"(2) [OF out Some fs ch e(2)]
        show ?thesis
        proof (cases "gpv f p sub prioridades
            (round_vec p (map ((*) (pesos ! index_of full criterio)) pl)) filhos filhos acc")
          case (Inl err)
          with r1 out Some fs show ?thesis by simp
        next
          case (Inr acc')
          with out Some fs "3.IH"(3) [OF out Some fs Inr tl "3.prems"(2)] show ?thesis
            by simp
        qed
      qed
    qed
  qed
qed

lemma gpv_success_depth:
  "gpv f p sub prios pesos full rest acc = Inr acc' \<Longrightarrow> dentro sub rest f"
proof (induction f p sub prios pesos full rest acc arbitrary: acc' rule: gpv.induct)
  case (1 p sub prioridades pesos full rest acc)
  then show ?case by simp
next
  case (2 f p sub prioridades pesos full acc)
  show ?case by (rule dentro.nivel) simp
next
  case (3 f p sub prioridades pesos full criterio resto acc)
  from "3.prems" have out: "\<not> length pesos \<le> index_of full criterio"
    by (auto split: if_splits)
  from "3.prems" out obtain pl where pl: "prioridades criterio = Some pl"
    by (auto split: option.splits)
  show ?case
  proof (cases "map_of sub criterio")
    case None
    with "3.prems" out pl have "dentro sub resto (Suc f)"
      using "3.IH"(1) [OF out pl None] by simp
    with None show ?thesis
      by (auto intro: dentro_cons)
  next
    case fs: (Some filhos)
    from "3.prems" out pl fs obtain a1 where a1: "gpv f p sub prioridades
        (round_vec p (map ((*) (pesos ! index_of full criterio)) pl)) filhos filhos acc = Inr a1"
      and a2: "gpv (Suc f) p sub prioridades pesos full resto a1 = Inr acc'"
      by (auto split: sum.splits)
    have "dentro sub filhos f"
      using "3.IH"(2) [OF out pl fs a1] .
    moreover have "dentro sub resto (Suc f)"
      using "3.IH"(3) [OF out pl fs a1 a2] .
    ultimately show ?thesis
      using fs by (auto intro: dentro_cons)
  qed
qed


lemma finite_filho: "finite (filho sub)"
proof -
  have "filho sub \<subseteq> (\<Union>(k, fs) \<in> set sub. set fs \<times> {k})"
    by (auto simp add: filho_def dest: map_of_SomeD)
  moreover have "finite (\<Union>(k, fs) \<in> set sub. set fs \<times> {k})"
    by auto
  ultimately show ?thesis
    by (rule finite_subset)
qed

lemma dentro_list_bound:
  "(\<And>y. y \<in> set ys \<Longrightarrow> \<exists>d. \<forall>gs. map_of sub y = Some gs \<longrightarrow> dentro sub gs d)
    \<Longrightarrow> \<exists>d. dentro sub ys (Suc d)"
proof (induction ys)
  case Nil
  show ?case by (simp add: dentro_Suc_iff)
next
  case (Cons y ys)
  from Cons.IH Cons.prems obtain d1 where d1: "dentro sub ys (Suc d1)"
    by auto
  from Cons.prems obtain d2 where d2: "\<forall>gs. map_of sub y = Some gs \<longrightarrow> dentro sub gs d2"
    by auto
  have "dentro sub ys (Suc (max d1 d2))"
    using d1 by (rule dentro_mono) simp
  moreover have "\<And>gs. map_of sub y = Some gs \<Longrightarrow> dentro sub gs (max d1 d2)"
    using d2 by (auto intro: dentro_mono)
  ultimately have "dentro sub (y # ys) (Suc (max d1 d2))"
    by (auto intro: dentro_cons)
  then show ?case ..
qed

lemma acyclic_node_bound:
  assumes "acyclic (filho sub)"
  shows "\<exists>d. \<forall>fs. map_of sub c = Some fs \<longrightarrow> dentro sub fs d"
proof -
  have "wf (filho sub)"
    using finite_filho assms by (rule finite_acyclic_wf)
  then show ?thesis
  proof (induction c rule: wf_induct_rule)
    case (less c)
    show ?case
    proof (cases "map_of sub c")
      case None
      then show ?thesis by simp
    next
      case (Some fs)
      have "\<And>y. y \<in> set fs \<Longrightarrow> \<exists>d. \<forall>gs. map_of sub y = Some gs \<longrightarrow> dentro sub gs d"
        using less.IH Some by (auto simp add: filho_def)
      then obtain d where "dentro sub fs (Suc d)"
        using dentro_list_bound by blast
      with Some show ?thesis by auto
    qed
  qed
qed

lemma acyclic_dentro: "acyclic (filho sub) \<Longrightarrow> \<exists>d. dentro sub cs d"
  using dentro_list_bound [of cs sub] acyclic_node_bound [of sub] by blast

lemma index_of_first:
  "c \<in> set cs \<Longrightarrow> index_of cs c < length cs \<and> cs ! index_of cs c = c
     \<and> (\<forall>j<index_of cs c. cs ! j \<noteq> c)"
proof (induction cs)
  case Nil
  then show ?case by simp
next
  case (Cons a cs)
  show ?case
  proof (cases "a = c")
    case True
    then show ?thesis by simp
  next
    case False
    with Cons have ih: "index_of cs c < length cs \<and> cs ! index_of cs c = c
        \<and> (\<forall>j<index_of cs c. cs ! j \<noteq> c)"
      by simp
    with False show ?thesis
      by (auto simp add: nth_Cons split: nat.splits)
  qed
qed

lemma index_of_distinct:
  "distinct cs \<Longrightarrow> i < length cs \<Longrightarrow> index_of cs (cs ! i) = i"
proof (induction cs arbitrary: i)
  case Nil
  then show ?case by simp
next
  case (Cons a cs)
  then show ?case
    by (cases i) auto
qed

lemma gpv_leaves:
  assumes "\<forall>c\<in>set rest. map_of sub c = None \<and> prios c \<noteq> None \<and> index_of full c < length pesos"
  shows "gpv (Suc f) p sub prios pesos full rest acc =
    Inr (acc @ map (\<lambda>c. round_vec p (map ((*) (pesos ! index_of full c)) (the (prios c)))) rest)"
  using assms
proof (induction rest arbitrary: acc)
  case Nil
  show ?case by simp
next
  case (Cons c rest)
  from Cons.prems obtain pl where "prios c = Some pl" "map_of sub c = None"
    "\<not> length pesos \<le> index_of full c"
    by auto
  moreover have "\<forall>c\<in>set rest. map_of sub c = None \<and> prios c \<noteq> None \<and> index_of full c < length pesos"
    using Cons.prems by simp
  ultimately show ?case
    using Cons.IH by simp
qed

text \<open>
  C9. When the sub-criteria dictionary has no cycle, the lists of nodes below the
  criteria list are nested to a finite depth \<open>d\<close> (the least \<open>d\<close> with \<open>dentro sub cs d\<close>), each
  recursive call going from a node to the list of its children, one level down. The
  aggregation then never exceeds a recursion depth of \<open>d\<close>: with that much depth
  available it returns without a \<^verbatim>\<open>RecursionError\<close>, and a run that completes has used a
  depth of at least \<open>d\<close>.
\<close>

theorem aggregation_terminates_at_hierarchy_depth:
  assumes "acyclic (filho sub)"
  shows "\<exists>d. dentro sub cs d \<and> (\<forall>e. dentro sub cs e \<longrightarrow> d \<le> e)
    \<and> (\<forall>f\<ge>d. gpv f p sub prios pesos cs cs acc \<noteq> Inl RecursionError)
    \<and> (\<forall>f acc'. gpv f p sub prios pesos cs cs acc = Inr acc' \<longrightarrow> d \<le> f)"
proof -
  from assms have ex: "\<exists>d. dentro sub cs d"
    by (rule acyclic_dentro)
  define d where "d = (LEAST d. dentro sub cs d)"
  have d: "dentro sub cs d"
    unfolding d_def using ex by (rule LeastI_ex)
  have least: "\<forall>e. dentro sub cs e \<longrightarrow> d \<le> e"
    unfolding d_def by (simp add: Least_le)
  have run: "\<forall>f\<ge>d. gpv f p sub prios pesos cs cs acc \<noteq> Inl RecursionError"
    using d by (simp add: gpv_enough_depth)
  have used: "\<forall>f acc'. gpv f p sub prios pesos cs cs acc = Inr acc' \<longrightarrow> d \<le> f"
    using least gpv_success_depth by blast
  from d least run used show ?thesis
    by blast
qed

lemma acyclic_two_levels: "acyclic (filho [(''c'', [''d''])])"
proof -
  have "filho [(''c'', [''d''])] = {(''d'', ''c'')}"
    by (auto simp add: filho_def split: if_splits)
  then show ?thesis
    by (simp add: acyclic_insert wf_acyclic)
qed

theorem aggregation_terminates_at_hierarchy_depth_witness:
  "acyclic (filho [(''c'', [''d''])])
   \<and> gpv 2 1 [(''c'', [''d''])] [''c'' \<mapsto> [1], ''d'' \<mapsto> [1 / 2, 1 / 2]] [1] [''c''] [''c''] []
       = Inr [[1 / 2, 1 / 2]]
   \<and> gpv 1 1 [(''c'', [''d''])] [''c'' \<mapsto> [1], ''d'' \<mapsto> [1 / 2, 1 / 2]] [1] [''c''] [''c''] []
       = Inl RecursionError
   \<and> (\<exists>d. dentro [(''c'', [''d''])] [''c''] d \<and> d = 2)"
proof -
  let ?sub = "[(''c'', [''d''])]"
  let ?prios = "[''c'' \<mapsto> [1], ''d'' \<mapsto> [1 / 2, 1 / 2 :: real]]"
  have two: "gpv 2 1 ?sub ?prios [1] [''c''] [''c''] [] = Inr [[1 / 2, 1 / 2]]"
    by (simp add: eval_nat_numeral round_vec_def np_round_def rint_def Let_def)
  have one: "gpv 1 1 ?sub ?prios [1] [''c''] [''c''] [] = Inl RecursionError"
    by (simp add: eval_nat_numeral round_vec_def np_round_def rint_def Let_def)
  from aggregation_terminates_at_hierarchy_depth [OF acyclic_two_levels,
      of "[''c'']" 1 ?prios "[1]" "[]"]
  obtain d where d: "dentro ?sub [''c''] d"
    and run: "\<forall>f\<ge>d. gpv f 1 ?sub ?prios [1] [''c''] [''c''] [] \<noteq> Inl RecursionError"
    and used: "\<forall>f acc'. gpv f 1 ?sub ?prios [1] [''c''] [''c''] [] = Inr acc' \<longrightarrow> d \<le> f"
    by blast
  from used two have "d \<le> 2"
    by blast
  moreover from run one have "\<not> d \<le> 1"
    by blast
  ultimately have "d = 2"
    by simp
  with d two one acyclic_two_levels show ?thesis
    by blast
qed

lemma index_of_le:
  "i < length cs \<Longrightarrow> index_of cs (cs ! i) \<le> i"
proof (induction cs arbitrary: i)
  case Nil
  then show ?case by simp
next
  case (Cons a cs)
  then show ?case by (cases i) auto
qed

lemma map_nodes_positions:
  "map (\<lambda>c. g (index_of cs c) c) cs = map (\<lambda>i. g (index_of cs (cs ! i)) (cs ! i)) [0 ..< length cs]"
  by (rule nth_equalityI) simp_all

lemma index_of_nth_first:
  assumes "i < length cs"
  shows "cs ! index_of cs (cs ! i) = cs ! i" "\<forall>j<index_of cs (cs ! i). cs ! j \<noteq> cs ! i"
proof -
  from assms have "cs ! i \<in> set cs" by simp
  from index_of_first [OF this] show "cs ! index_of cs (cs ! i) = cs ! i"
    "\<forall>j<index_of cs (cs ! i). cs ! j \<noteq> cs ! i"
    by simp_all
qed

text \<open>
  C10. The weight that the aggregation applies to the node at position \<open>i\<close> of the nodes
  list is \<open>pesos ! index_of cs (cs ! i)\<close>: the entry at the first position that holds the
  same identifier, which is never after \<open>i\<close>. On a list of leaves the accumulated
  contributions are the local vectors scaled by these weights; when the identifiers are
  pairwise distinct the position is \<open>i\<close> itself, and a repeated identifier gets the
  weight of its first occurrence at every occurrence. A node with children passes the
  vector scaled by the same weight down as the weights of its children.
\<close>

theorem weight_of_first_occurrence:
  assumes "\<forall>c\<in>set cs. map_of sub c = None \<and> prios c \<noteq> None"
    and "length cs \<le> length pesos"
  shows "gpv (Suc f) p sub prios pesos cs cs acc =
      Inr (acc @ map (\<lambda>i. round_vec p (map ((*) (pesos ! index_of cs (cs ! i))) (the (prios (cs ! i)))))
                   [0 ..< length cs])
    \<and> (\<forall>i<length cs. index_of cs (cs ! i) \<le> i \<and> cs ! index_of cs (cs ! i) = cs ! i
          \<and> (\<forall>j<index_of cs (cs ! i). cs ! j \<noteq> cs ! i))
    \<and> (distinct cs \<longrightarrow> (\<forall>i<length cs. index_of cs (cs ! i) = i))
    \<and> (\<forall>full c resto pl fs a. prios c = Some pl \<and> map_of sub c = Some fs
            \<and> index_of full c < length pesos \<longrightarrow>
          gpv (Suc f) p sub prios pesos full (c # resto) a =
            (case gpv f p sub prios (round_vec p (map ((*) (pesos ! index_of full c)) pl)) fs fs a of
               Inl e \<Rightarrow> Inl e
             | Inr a' \<Rightarrow> gpv (Suc f) p sub prios pesos full resto a'))"
proof -
  have "\<forall>c\<in>set cs. map_of sub c = None \<and> prios c \<noteq> None \<and> index_of cs c < length pesos"
  proof
    fix c
    assume c: "c \<in> set cs"
    from index_of_first [OF c] have "index_of cs c < length cs"
      by simp
    with c assms show "map_of sub c = None \<and> prios c \<noteq> None \<and> index_of cs c < length pesos"
      by simp
  qed
  then have "gpv (Suc f) p sub prios pesos cs cs acc =
      Inr (acc @ map (\<lambda>c. round_vec p (map ((*) (pesos ! index_of cs c)) (the (prios c)))) cs)"
    by (rule gpv_leaves)
  then have run: "gpv (Suc f) p sub prios pesos cs cs acc =
      Inr (acc @ map (\<lambda>i. round_vec p (map ((*) (pesos ! index_of cs (cs ! i))) (the (prios (cs ! i)))))
                   [0 ..< length cs])"
    by (simp only: map_nodes_positions
        [of "\<lambda>k c. round_vec p (map ((*) (pesos ! k)) (the (prios c)))" cs])
  have first: "\<forall>i<length cs. index_of cs (cs ! i) \<le> i \<and> cs ! index_of cs (cs ! i) = cs ! i
      \<and> (\<forall>j<index_of cs (cs ! i). cs ! j \<noteq> cs ! i)"
  proof (intro allI impI)
    fix i
    assume i: "i < length cs"
    from index_of_le [OF i] index_of_nth_first [OF i]
    show "index_of cs (cs ! i) \<le> i \<and> cs ! index_of cs (cs ! i) = cs ! i
        \<and> (\<forall>j<index_of cs (cs ! i). cs ! j \<noteq> cs ! i)"
      by simp
  qed
  have dist: "distinct cs \<longrightarrow> (\<forall>i<length cs. index_of cs (cs ! i) = i)"
    by (simp add: index_of_distinct)
  have down: "\<forall>full c resto pl fs a. prios c = Some pl \<and> map_of sub c = Some fs
        \<and> index_of full c < length pesos \<longrightarrow>
      gpv (Suc f) p sub prios pesos full (c # resto) a =
        (case gpv f p sub prios (round_vec p (map ((*) (pesos ! index_of full c)) pl)) fs fs a of
           Inl e \<Rightarrow> Inl e
         | Inr a' \<Rightarrow> gpv (Suc f) p sub prios pesos full resto a')"
    by simp
  from run first dist down show ?thesis
    by (intro conjI)
qed

theorem weight_of_first_occurrence_witness:
  "gpv (Suc 0) 1 [] [''a'' \<mapsto> [1]] [3 / 10, 7 / 10] [''a'', ''a''] [''a'', ''a''] []
     = Inr [[3 / 10], [3 / 10]]
   \<and> gpv (Suc 0) 1 [] [''a'' \<mapsto> [1], ''b'' \<mapsto> [1]] [3 / 10, 7 / 10] [''a'', ''b''] [''a'', ''b''] []
     = Inr [[3 / 10], [7 / 10]]"
proof -
  have h1: "\<forall>c\<in>set [''a'', ''a'']. map_of [] c = None \<and> [''a'' \<mapsto> [1::real]] c \<noteq> None"
    by simp
  have h2: "\<forall>c\<in>set [''a'', ''b'']. map_of [] c = None
      \<and> [''a'' \<mapsto> [1::real], ''b'' \<mapsto> [1]] c \<noteq> None"
    by simp
  have l: "length [''a'', ''a''] \<le> length [3 / 10, 7 / 10 :: real]"
    "length [''a'', ''b''] \<le> length [3 / 10, 7 / 10 :: real]"
    by simp_all
  have u: "[0 ..< length [''a'', ''a'']] = [0, 1]" "[0 ..< length [''a'', ''b'']] = [0, 1]"
    by (simp_all add: upt_rec)
  from weight_of_first_occurrence [OF h1 l(1), of 0 1 "[]"]
  have a: "gpv (Suc 0) 1 [] [''a'' \<mapsto> [1]] [3 / 10, 7 / 10] [''a'', ''a''] [''a'', ''a''] []
     = Inr [[3 / 10], [3 / 10]]"
    unfolding u by (simp add: round_vec_def np_round_def rint_def Let_def)
  from weight_of_first_occurrence [OF h2 l(2), of 0 1 "[]"]
  have b: "gpv (Suc 0) 1 [] [''a'' \<mapsto> [1], ''b'' \<mapsto> [1]] [3 / 10, 7 / 10] [''a'', ''b''] [''a'', ''b''] []
     = Inr [[3 / 10], [7 / 10]]"
    unfolding u by (simp add: round_vec_def np_round_def rint_def Let_def)
  from a b show ?thesis ..
qed

section \<open>Conservation of the weights\<close>














lemma local_priority_vector_folha_vazia:
  "local_priority_vector eig (folha_vazia\<lparr>prioridades_globais := a\<rparr>) =
     Inr [''criterios'' \<mapsto> [1 / 2, 1 / 2], ''c'' \<mapsto> [1], ''d'' \<mapsto> [1]]"
  by (simp add: folha_vazia_def init_def local_priority_vector_def prioridades_locais_def escolha_def
      aproximado_def sum_axis0_def consistencia_def nrows_def ncols_def round_vec_def
      np_round_def rint_def Let_def upt_rec)

lemma resultado_folha_vazia:
  "resultado eig 1000 (folha_vazia\<lparr>prioridades_globais := []\<rparr>) =
     Inr ([(''x'', 1 / 2)], folha_vazia\<lparr>prioridades_globais := [[1 / 2]]\<rparr>)"
  unfolding resultado_def local_priority_vector_folha_vazia
  by (simp add: folha_vazia_def init_def global_priority_vector_def eval_nat_numeral
      rectangular_def dict_def sum_axis0_def nrows_def ncols_def round_vec_def
      np_round_def rint_def Let_def upt_rec)




text \<open>
  The weight of a criterion is also lost when the criterion has no children but is a
  key of the sub-criteria dictionary with the empty list: the membership test sends it
  to the recursion over its empty list of children, and nothing is accumulated for it.
  On \<open>folha_vazia\<close> the criterion \<open>c\<close> of weight 0.5 is dropped and the final vector is
  \<open>[0.5]\<close>.
\<close>

lemma weight_dropped_on_empty_child_list:
  "map_of (sub_criterios folha_vazia) ''c'' = Some []
   \<and> resultado eig 1000 folha_vazia =
       Inr ([(''x'', 1 / 2)], folha_vazia\<lparr>prioridades_globais := [[1 / 2]]\<rparr>)"
proof -
  have e: "prioridades_globais folha_vazia = []"
    "map_of (sub_criterios folha_vazia) ''c'' = Some []"
    by (simp_all add: folha_vazia_def init_def)
  then have r: "folha_vazia\<lparr>prioridades_globais := []\<rparr> = folha_vazia"
    by simp
  from resultado_folha_vazia [of eig] e show ?thesis
    unfolding r by simp
qed




section \<open>Repeated calls of the engine\<close>

lemma local_priority_vector_exemplo:
  "local_priority_vector eig (exemplo\<lparr>prioridades_globais := a\<rparr>) =
     Inr [''criterios'' \<mapsto> [1], ''c'' \<mapsto> [1 / 2, 1 / 2]]"
  by (simp add: exemplo_def init_def local_priority_vector_def prioridades_locais_def escolha_def
      aproximado_def sum_axis0_def consistencia_def nrows_def ncols_def round_vec_def
      np_round_def rint_def Let_def upt_rec)

lemma resultado_exemplo_first:
  "resultado eig 1000 (exemplo\<lparr>prioridades_globais := []\<rparr>) =
     Inr ([(''a'', 1 / 2), (''b'', 1 / 2)], exemplo\<lparr>prioridades_globais := [[1 / 2, 1 / 2]]\<rparr>)"
  unfolding resultado_def local_priority_vector_exemplo
  by (simp add: exemplo_def init_def global_priority_vector_def eval_nat_numeral
      rectangular_def dict_def sum_axis0_def nrows_def ncols_def round_vec_def
      np_round_def rint_def Let_def upt_rec)

lemma resultado_exemplo_second:
  "resultado eig 1000 (exemplo\<lparr>prioridades_globais := [[1 / 2, 1 / 2]]\<rparr>) =
     Inr ([(''a'', 1), (''b'', 1)],
          exemplo\<lparr>prioridades_globais := [[1 / 2, 1 / 2], [1 / 2, 1 / 2]]\<rparr>)"
  unfolding resultado_def local_priority_vector_exemplo
  by (simp add: exemplo_def init_def global_priority_vector_def eval_nat_numeral
      rectangular_def dict_def sum_axis0_def nrows_def ncols_def round_vec_def
      np_round_def rint_def Let_def upt_rec)

text \<open>
  C1. The code does not give each call of \<^verbatim>\<open>resultado\<close> a fresh accumulator: the list
  \<^verbatim>\<open>prioridades_globais\<close> is created once by the constructor and only ever appended to.
  On the engine \<open>exemplo\<close> the first call returns the ranking \<open>a = 0.5, b = 0.5\<close> and leaves
  its contribution in the engine; the second call on the engine so left returns
  \<open>a = 1, b = 1\<close>, the sum of the contributions of both runs.
\<close>

theorem resultado_second_call_accumulates:
  "prioridades_globais exemplo = []
   \<and> resultado eig 1000 exemplo =
       Inr ([(''a'', 1 / 2), (''b'', 1 / 2)], exemplo\<lparr>prioridades_globais := [[1 / 2, 1 / 2]]\<rparr>)
   \<and> resultado eig 1000 (exemplo\<lparr>prioridades_globais := [[1 / 2, 1 / 2]]\<rparr>) =
       Inr ([(''a'', 1), (''b'', 1)],
            exemplo\<lparr>prioridades_globais := [[1 / 2, 1 / 2], [1 / 2, 1 / 2]]\<rparr>)"
proof -
  have e: "prioridades_globais exemplo = []"
    by (simp add: exemplo_def init_def)
  then have "exemplo\<lparr>prioridades_globais := []\<rparr> = exemplo"
    by simp
  with resultado_exemplo_first [of eig] resultado_exemplo_second [of eig] e show ?thesis
    by simp
qed

section \<open>Properties of the consistency metrics\<close>

lemma ri_defined:
  "2 < n \<Longrightarrow> n \<le> 15 \<Longrightarrow> map_of randon_consist_index n \<noteq> None"
  unfolding map_of_eq_None_iff randon_consist_index_def
  by simp presburger

lemma ri_undefined:
  "15 < n \<Longrightarrow> map_of randon_consist_index n = None"
  by (simp add: randon_consist_index_def)

text \<open>
  C6. A square matrix of order above 15 makes \<^verbatim>\<open>consistencia\<close> fail with the lookup
  error of the Random Index dictionary (\<^verbatim>\<open>KeyError\<close>), whatever the eigenvalue is; the
  error is the result of the call and nothing catches it.
\<close>

theorem consistencia_order_above_15:
  assumes "is_square m" and "15 < nrows m"
  shows "consistencia eig m = Inl KeyError"
proof -
  from assms have "nrows m = ncols m" "2 < ncols m" "nrows m \<noteq> 0"
    by (simp_all add: is_square_def)
  moreover from assms have "map_of randon_consist_index (length m) = None"
    by (simp add: ri_undefined nrows_def)
  ultimately show ?thesis
    by (simp add: consistencia_def)
qed

theorem consistencia_order_16_witness:
  "is_square (replicate 16 (replicate 16 1)) \<and> 15 < nrows (replicate 16 (replicate 16 1))
   \<and> consistencia (\<lambda>_. 16) (replicate 16 (replicate 16 1)) = Inl KeyError"
proof -
  have sq: "is_square (replicate 16 (replicate 16 1))"
    by (rule is_square_replicate) simp
  have big: "15 < nrows (replicate 16 (replicate 16 (1::real)))"
    by (simp add: nrows_def)
  from sq big consistencia_order_above_15 [OF sq big] show ?thesis
    by simp
qed

text \<open>
  C5. On a square matrix of order at most 2 \<^verbatim>\<open>consistencia\<close> returns \<open>(0, 0, 0)\<close> whatever
  the entries are. On a square matrix of order \<open>n\<close> with \<open>2 < n \<le> 15\<close> it returns the
  eigenvalue \<open>lambda_max\<close>, \<open>CI = (lambda_max - n) / (n - 1)\<close> and \<open>CR = CI / RI n\<close>, where
  \<open>RI\<close> is the table 0.52, 0.89, 1.11, 1.25, 1.35, 1.40, 1.45, 1.49, 1.52, 1.54, 1.56,
  1.58, 1.59 for the orders 3 to 15.
\<close>

theorem consistencia_small_and_table:
  assumes "is_square m"
  shows "(nrows m \<le> 2 \<longrightarrow> consistencia eig m = Inr (0, 0, 0))
    \<and> (2 < nrows m \<and> nrows m \<le> 15 \<longrightarrow>
         (\<exists>ri. map_of randon_consist_index (nrows m) = Some ri
            \<and> consistencia eig m =
                Inr (eig m, (eig m - real (nrows m)) / (real (nrows m) - 1),
                     (eig m - real (nrows m)) / (real (nrows m) - 1) / ri)))
    \<and> map (map_of randon_consist_index) [3 ..< 16] =
        map Some [0.52, 0.89, 1.11, 1.25, 1.35, 1.40, 1.45, 1.49, 1.52, 1.54, 1.56, 1.58, 1.59]"
proof (intro conjI impI)
  assume "nrows m \<le> 2"
  with assms show "consistencia eig m = Inr (0, 0, 0)"
    by (simp add: consistencia_def is_square_def)
next
  assume a: "2 < nrows m \<and> nrows m \<le> 15"
  then obtain ri where ri: "map_of randon_consist_index (nrows m) = Some ri"
    using ri_defined [of "nrows m"] by auto
  moreover from assms a have "nrows m = ncols m" "2 < ncols m" "nrows m \<noteq> 0"
    by (simp_all add: is_square_def)
  ultimately have "consistencia eig m =
      Inr (eig m, (eig m - real (nrows m)) / (real (nrows m) - 1),
           (eig m - real (nrows m)) / (real (nrows m) - 1) / ri)"
    by (simp add: consistencia_def nrows_def Let_def)
  with ri show "\<exists>ri. map_of randon_consist_index (nrows m) = Some ri
      \<and> consistencia eig m =
          Inr (eig m, (eig m - real (nrows m)) / (real (nrows m) - 1),
               (eig m - real (nrows m)) / (real (nrows m) - 1) / ri)"
    by blast
next
  have "[3 ..< 16] = [3, 4, 5, 6, 7, 8, 9, 10, 11, 12, 13, 14, 15::nat]"
    by (simp add: upt_rec)
  then show "map (map_of randon_consist_index) [3 ..< 16] =
      map Some [0.52, 0.89, 1.11, 1.25, 1.35, 1.40, 1.45, 1.49, 1.52, 1.54, 1.56, 1.58, 1.59]"
    by (simp add: randon_consist_index_def)
qed

theorem consistencia_small_and_table_witness:
  "is_square [[1, 9], [5, 1]] \<and> consistencia (\<lambda>_. 7) [[1, 9], [5, 1]] = Inr (0, 0, 0)
   \<and> is_square [[1, 1, 1], [1, 1, 1], [1, 1, 1]]
   \<and> consistencia (\<lambda>_. 4) [[1, 1, 1], [1, 1, 1], [1, 1, 1]] = Inr (4, 1 / 2, 25 / 26)"
proof -
  have s2: "is_square [[1, 9], [5, 1]]"
    by (simp add: is_square_def rectangular_def nrows_def ncols_def)
  have s3: "is_square [[1, 1, 1], [1, 1, 1], [1, 1, 1]]"
    by (simp add: is_square_def rectangular_def nrows_def ncols_def)
  have r3: "map_of randon_consist_index (3::nat) = Some (52 / 100)"
    by (simp add: randon_consist_index_def)
  from consistencia_small_and_table [OF s2, of "\<lambda>_. 7"]
  have a: "consistencia (\<lambda>_. 7) [[1, 9], [5, 1]] = Inr (0, 0, 0)"
    by (simp add: nrows_def)
  have n3: "nrows [[1, 1, 1], [1, 1, 1], [1, 1, 1]] = 3"
    by (simp add: nrows_def)
  have c: "2 < (3::nat) \<and> (3::nat) \<le> 15"
    by simp
  from consistencia_small_and_table [OF s3, of "\<lambda>_. 4", unfolded n3] c
  obtain ri where ri: "map_of randon_consist_index 3 = Some ri"
    and v: "consistencia (\<lambda>_. 4) [[1, 1, 1], [1, 1, 1], [1, 1, 1]] =
          Inr (4, (4 - real 3) / (real 3 - 1), (4 - real 3) / (real 3 - 1) / ri)"
    by blast
  from ri r3 have "ri = 52 / 100"
    by simp
  with v have b: "consistencia (\<lambda>_. 4) [[1, 1, 1], [1, 1, 1], [1, 1, 1]] = Inr (4, 1 / 2, 25 / 26)"
    by simp
  from s2 s3 a b show ?thesis by blast
qed

end
